theory Spec2Isabelle
  imports Complex_Main "HOL-Library.Sublist"
begin

section \<open>The autonomy controller of the demo backend\<close>

text \<open>
  The subject is the class \<open>AutonomyController\<close> (controllers/autonomy.controller.ts):
  two insertion-ordered \<open>Map\<close>s held by a singleton, six request handlers, and the
  \<open>setTimeout\<close> callback that \<open>triggerRecomputation\<close> arms. Everything the handlers take from
  their surroundings is an argument of the model: the identifier returned by \<open>uuidv4()\<close>,
  the time read by \<open>new Date()\<close> (milliseconds, a natural number), the draw of
  \<open>Math.random()\<close> (a real number; the rounding of doubles is not modelled), and the
  numbers \<open>Number(page)\<close> and \<open>Number(limit)\<close> of the query string.
\<close>

subsection \<open>JavaScript values\<close>

text \<open>
  A \<open>Map\<close> with string keys is an association list with distinct keys in insertion order:
  \<open>Map.prototype.set\<close> replaces the value of a key that is present where it stands and appends
  a new key at the end; \<open>values()\<close> enumerates in that order.
\<close>

type_synonym 'v jsmap = "(string \<times> 'v) list"

definition map_get :: "'v jsmap \<Rightarrow> string \<Rightarrow> 'v option" where
  "map_get m k = map_of m k"

fun map_set :: "'v jsmap \<Rightarrow> string \<Rightarrow> 'v \<Rightarrow> 'v jsmap" where
  "map_set [] k v = [(k, v)]"
| "map_set ((k', v') # m) k v = (if k' = k then (k, v) # m else (k', v') # map_set m k v)"

definition map_values :: "'v jsmap \<Rightarrow> 'v list" where
  "map_values m = map snd m"

definition map_size :: "'v jsmap \<Rightarrow> nat" where
  "map_size m = length m"

text \<open>
  The result of \<open>Number(x)\<close> on a query parameter: \<open>NaN\<close> when the text is no number, an
  integer otherwise (a fraction would be truncated by \<open>slice\<close> anyway).
\<close>

datatype jsnum = NaN | Num int

definition to_integer :: "jsnum \<Rightarrow> int" where
  "to_integer x = (case x of NaN \<Rightarrow> 0 | Num n \<Rightarrow> n)"

text \<open>
  \<open>Array.prototype.slice(start, end)\<close>: a negative index counts from the end, both are
  clamped to the array, and an empty range gives the empty array.
\<close>

definition rel_index :: "nat \<Rightarrow> int \<Rightarrow> nat" where
  "rel_index len k = (if k < 0 then nat (max (int len + k) 0) else nat (min k (int len)))"

definition slice :: "'a list \<Rightarrow> jsnum \<Rightarrow> jsnum \<Rightarrow> 'a list" where
  "slice xs start end =
     (let len = length xs;
          k = rel_index len (to_integer start);
          final = rel_index len (to_integer end)
      in take (final - k) (drop k xs))"

subsection \<open>Request bodies and stored objects\<close>

text \<open>The shapes that \<open>autonomyValidation.recompute\<close> lets through.\<close>

record params =
  param_algorithm :: "string option"
  param_iterations :: "int option"
  param_threshold :: "real option"
  param_optimizationLevel :: "string option"
  param_parallelism :: "int option"

record opts =
  opt_priority :: string
  opt_timeout :: "int option"
  opt_retryOnFailure :: bool
  opt_maxRetries :: int
  opt_notifyOnComplete :: bool
  opt_webhookUrl :: "string option"

record body =
  body_datasetId :: string
  body_parameters :: "params option"
  body_options :: "opts option"

record comp_results =
  accuracy :: real
  iterations :: int
  convergence :: bool

text \<open>
  The object stored in \<open>computations\<close>. The literal of \<open>triggerRecomputation\<close> has the first
  seven properties; \<open>completedAt\<close>, \<open>cancelledAt\<close> and \<open>results\<close> are added later by assignment,
  so they are optional here. No statement of the class assigns a property \<open>error\<close>; the field
  is kept so that its absence can be stated.
\<close>

record computation =
  comp_id :: string
  datasetId :: string
  status :: string
  startedAt :: nat
  parameters :: "params option"
  options :: "opts option"
  progress :: int
  completedAt :: "nat option"
  cancelledAt :: "nat option"
  results :: "comp_results option"
  error :: "string option"

record schedule_body =
  sb_datasetId :: string
  sb_schedule :: string
  sb_parameters :: "params option"

record scheduleEntry =
  sched_id :: string
  sched_datasetId :: string
  sched_schedule :: string
  sched_parameters :: "params option"
  sched_enabled :: bool
  sched_createdAt :: nat
  sched_nextRun :: nat

text \<open>
  A pending \<open>setTimeout\<close> callback: the closure holds \<open>computation.id\<close> and the \<open>parameters\<close>
  of the request, and it may run once the delay of 5000 ms has passed.
\<close>

record timer =
  timer_id :: string
  timer_parameters :: "params option"
  timer_due :: nat

record state =
  computations :: "computation jsmap"
  schedules :: "scheduleEntry jsmap"
  timers :: "timer list"

definition init_state :: state where
  "init_state = \<lparr>computations = [], schedules = [], timers = []\<rparr>"

subsection \<open>Responses\<close>

record metadata =
  md_computationId :: string
  md_datasetId :: string
  md_completedAt :: "nat option"

record pagination =
  page :: jsnum
  limit :: jsnum
  total :: nat

record query =
  q_page :: "jsnum option"
  q_limit :: "jsnum option"
  q_status :: "string option"

record metrics =
  m_total :: nat
  m_running :: nat
  m_completed :: nat
  m_failed :: nat
  m_cancelled :: nat
  averageComputationTime :: nat
  successRate :: real
  activeSchedules :: nat

text \<open>One constructor for each \<open>res.status(..).json(..)\<close> of the class.\<close>

datatype response =
    Initiated string string
  | NotFound
  | StatusOk string int nat "nat option"
  | StillInProgress string int
  | ResultsOk "comp_results option" metadata
  | CancelledOk string string
  | HistoryOk "computation list" pagination
  | ScheduleCreated scheduleEntry

fun http_status :: "response \<Rightarrow> nat" where
  "http_status (Initiated _ _) = 202"
| "http_status NotFound = 404"
| "http_status (StatusOk _ _ _ _) = 200"
| "http_status (StillInProgress _ _) = 202"
| "http_status (ResultsOk _ _) = 200"
| "http_status (CancelledOk _ _) = 200"
| "http_status (HistoryOk _ _) = 200"
| "http_status (ScheduleCreated _) = 201"

text \<open>
  Whether the JSON of a response has a \<open>results\<close> property (\<open>JSON.stringify\<close> leaves out a
  property whose value is \<open>undefined\<close>).
\<close>

fun has_results_field :: "response \<Rightarrow> bool" where
  "has_results_field (ResultsOk r _) = (r \<noteq> None)"
| "has_results_field _ = False"

subsection \<open>The handlers\<close>

definition triggerRecomputation :: "state \<Rightarrow> string \<Rightarrow> nat \<Rightarrow> body \<Rightarrow> state \<times> response" where
  "triggerRecomputation s uuid now b =
     (let computation = \<lparr>comp_id = uuid, datasetId = body_datasetId b, status = ''running'',
            startedAt = now, parameters = body_parameters b, options = body_options b,
            progress = 0, completedAt = None, cancelledAt = None, results = None,
            error = None\<rparr>;
          s1 = s\<lparr>computations := map_set (computations s) (comp_id computation) computation\<rparr>;
          s2 = s1\<lparr>timers := timers s1 @
                 [\<lparr>timer_id = comp_id computation, timer_parameters = body_parameters b,
                   timer_due = now + 5000\<rparr>]\<rparr>
      in (s2, Initiated (comp_id computation) (status computation)))"

text \<open>\<open>parameters?.iterations || 100\<close>: a missing bag, a missing property and 0 all give 100.\<close>

definition iterations_or_default :: "params option \<Rightarrow> int" where
  "iterations_or_default p =
     (case p of None \<Rightarrow> 100
      | Some ps \<Rightarrow> (case param_iterations ps of None \<Rightarrow> 100
                    | Some n \<Rightarrow> if n = 0 then 100 else n))"

text \<open>The body of the arrow function given to \<open>setTimeout\<close>, run at time \<open>now\<close> with draw \<open>r\<close>.\<close>

definition timeout_callback :: "state \<Rightarrow> timer \<Rightarrow> nat \<Rightarrow> real \<Rightarrow> state" where
  "timeout_callback s t now r =
     (case map_get (computations s) (timer_id t) of
        None \<Rightarrow> s
      | Some comp' \<Rightarrow>
          s\<lparr>computations := map_set (computations s) (timer_id t)
              (comp'\<lparr>status := ''completed'', progress := 100, completedAt := Some now,
                    results := Some \<lparr>accuracy = r * 0.2 + 0.8,
                                     iterations = iterations_or_default (timer_parameters t),
                                     convergence = True\<rparr>\<rparr>)\<rparr>)"

definition getComputationStatus :: "state \<Rightarrow> string \<Rightarrow> response" where
  "getComputationStatus s computationId =
     (case map_get (computations s) computationId of
        None \<Rightarrow> NotFound
      | Some computation \<Rightarrow>
          StatusOk (status computation) (progress computation) (startedAt computation)
            (completedAt computation))"

definition getComputationResults :: "state \<Rightarrow> string \<Rightarrow> response" where
  "getComputationResults s computationId =
     (case map_get (computations s) computationId of
        None \<Rightarrow> NotFound
      | Some computation \<Rightarrow>
          if status computation \<noteq> ''completed''
          then StillInProgress (status computation) (progress computation)
          else ResultsOk (results computation)
                 \<lparr>md_computationId = comp_id computation,
                  md_datasetId = datasetId computation,
                  md_completedAt = completedAt computation\<rparr>)"

definition cancelComputation :: "state \<Rightarrow> string \<Rightarrow> nat \<Rightarrow> state \<times> response" where
  "cancelComputation s computationId now =
     (case map_get (computations s) computationId of
        None \<Rightarrow> (s, NotFound)
      | Some computation \<Rightarrow>
          (let computation' = computation\<lparr>status := ''cancelled'', cancelledAt := Some now\<rparr>
           in (s\<lparr>computations := map_set (computations s) computationId computation'\<rparr>,
               CancelledOk (comp_id computation') (status computation'))))"

text \<open>
  \<open>const { page = 1, limit = 20, status } = req.query\<close>; a status that is absent or the empty
  string is falsy and selects every computation.
\<close>

definition history_filtered :: "state \<Rightarrow> string option \<Rightarrow> computation list" where
  "history_filtered s st =
     (case st of
        None \<Rightarrow> map_values (computations s)
      | Some v \<Rightarrow> if v = [] then map_values (computations s)
                  else filter (\<lambda>c. status c = v) (map_values (computations s)))"

definition getComputationHistory :: "state \<Rightarrow> query \<Rightarrow> response" where
  "getComputationHistory s q =
     (let page = (case q_page q of None \<Rightarrow> Num 1 | Some p \<Rightarrow> p);
          limit = (case q_limit q of None \<Rightarrow> Num 20 | Some l \<Rightarrow> l);
          filtered = history_filtered s (q_status q)
      in HistoryOk (slice filtered (Num 0) limit)
           \<lparr>page = page, limit = limit, total = length filtered\<rparr>)"

definition scheduleComputation :: "state \<Rightarrow> string \<Rightarrow> nat \<Rightarrow> schedule_body \<Rightarrow> state \<times> response" where
  "scheduleComputation s uuid now b =
     (let scheduleEntry = \<lparr>sched_id = uuid, sched_datasetId = sb_datasetId b,
            sched_schedule = sb_schedule b, sched_parameters = sb_parameters b,
            sched_enabled = True, sched_createdAt = now, sched_nextRun = now + 3600000\<rparr>
      in (s\<lparr>schedules := map_set (schedules s) (sched_id scheduleEntry) scheduleEntry\<rparr>,
          ScheduleCreated scheduleEntry))"

definition count_status :: "computation list \<Rightarrow> string \<Rightarrow> nat" where
  "count_status cs v = length (filter (\<lambda>c. status c = v) cs)"

text \<open>The \<open>metrics\<close> object of the response of \<open>getMetrics\<close> (always 200).\<close>

definition getMetrics :: "state \<Rightarrow> metrics" where
  "getMetrics s =
     (let cs = map_values (computations s)
      in \<lparr>m_total = length cs,
          m_running = count_status cs ''running'',
          m_completed = count_status cs ''completed'',
          m_failed = count_status cs ''failed'',
          m_cancelled = count_status cs ''cancelled'',
          averageComputationTime = 5234,
          successRate = 0.92,
          activeSchedules = map_size (schedules s)\<rparr>)"

subsection \<open>Runs of the controller\<close>

text \<open>
  The events that change the state: the three writing requests and the firing of a pending
  timer (chosen by its position among the pending ones). \<open>uuidv4\<close> is taken not to repeat a
  key of the map it is used for, a callback does not run before its delay has passed, and
  \<open>Math.random()\<close> lies in \<open>[0, 1)\<close>; an event that breaks one of these is not a step.
\<close>

datatype event =
    Recompute string nat body
  | Timeout nat nat real
  | Cancel string nat
  | Schedule string nat schedule_body

definition remove_nth :: "nat \<Rightarrow> 'a list \<Rightarrow> 'a list" where
  "remove_nth i xs = take i xs @ drop (Suc i) xs"

fun step :: "state \<Rightarrow> event \<Rightarrow> state option" where
  "step s (Recompute uuid now b) =
     (if map_get (computations s) uuid = None
      then Some (fst (triggerRecomputation s uuid now b)) else None)"
| "step s (Timeout i now r) =
     (if i < length (timers s) \<and> timer_due (timers s ! i) \<le> now \<and> 0 \<le> r \<and> r < 1
      then Some (timeout_callback (s\<lparr>timers := remove_nth i (timers s)\<rparr>) (timers s ! i) now r)
      else None)"
| "step s (Cancel computationId now) = Some (fst (cancelComputation s computationId now))"
| "step s (Schedule uuid now b) =
     (if map_get (schedules s) uuid = None
      then Some (fst (scheduleComputation s uuid now b)) else None)"

fun run :: "state \<Rightarrow> event list \<Rightarrow> state option" where
  "run s [] = Some s"
| "run s (e # es) = (case step s e of None \<Rightarrow> None | Some s' \<Rightarrow> run s' es)"

text \<open>The stored object of a key after a run, if the run is possible and the key is known.\<close>

definition job_after :: "state \<Rightarrow> event list \<Rightarrow> string \<Rightarrow> computation option" where
  "job_after s es k = (case run s es of None \<Rightarrow> None | Some s' \<Rightarrow> map_get (computations s') k)"

subsection \<open>Predicates of the statements\<close>

text \<open>The terminal statuses of the specification.\<close>

definition terminal :: "string \<Rightarrow> bool" where
  "terminal v = (v = ''completed'' \<or> v = ''failed'' \<or> v = ''cancelled'')"

text \<open>A request without the property \<open>parameters.iterations\<close>.\<close>

definition no_iterations :: "params option \<Rightarrow> bool" where
  "no_iterations p = (case p of None \<Rightarrow> True | Some ps \<Rightarrow> param_iterations ps = None)"

text \<open>
  The page that the specification describes for a 1-based page number \<open>p\<close> and a limit \<open>l\<close>:
  the elements at positions \<open>(p - 1) * l\<close> to \<open>p * l - 1\<close>.
\<close>

definition page_of_spec :: "'a list \<Rightarrow> nat \<Rightarrow> nat \<Rightarrow> 'a list" where
  "page_of_spec xs p l = take l (drop ((p - 1) * l) xs)"

text \<open>
  What every stored object satisfies in the states the controller can reach: the three
  statuses that are ever assigned, no \<open>error\<close>, and \<open>results\<close> written together with
  \<open>completedAt\<close>.
\<close>

definition job_inv :: "computation \<Rightarrow> bool" where
  "job_inv c =
     ((status c = ''running'' \<or> status c = ''completed'' \<or> status c = ''cancelled'') \<and>
      error c = None \<and>
      (status c = ''completed'' \<longrightarrow> results c \<noteq> None) \<and>
      (status c = ''running'' \<longrightarrow> completedAt c = None \<and> cancelledAt c = None) \<and>
      (results c \<noteq> None \<longleftrightarrow> completedAt c \<noteq> None))"

text \<open>
  How the pending callbacks relate to the map: no two of them hold the same identifier, each
  one's computation is in the map, has not been completed yet and has the \<open>parameters\<close> the
  closure holds; and every object is stored under its own \<open>id\<close>.
\<close>

definition store_inv :: "state \<Rightarrow> bool" where
  "store_inv s =
     (distinct (map timer_id (timers s)) \<and>
      (\<forall>t\<in>set (timers s).
         case map_get (computations s) (timer_id t) of
           None \<Rightarrow> False
         | Some c \<Rightarrow> completedAt c = None \<and> timer_parameters t = parameters c) \<and>
      (\<forall>(k, c)\<in>set (computations s). comp_id c = k))"

text \<open>
  How a stored object may differ from an earlier version of itself that was in a terminal
  state: it is still terminal, a \<open>completedAt\<close> that was set is the same, and a \<open>cancelledAt\<close>
  that was set is still set.
\<close>

definition terminal_kept :: "computation \<Rightarrow> computation \<Rightarrow> bool" where
  "terminal_kept c c' =
     (terminal (status c') \<and>
      (completedAt c \<noteq> None \<longrightarrow> completedAt c' = completedAt c) \<and>
      (cancelledAt c \<noteq> None \<longrightarrow> cancelledAt c' \<noteq> None))"

subsection \<open>Sample requests and states\<close>

text \<open>
  A request for dataset \<open>d1\<close> without parameters, the object it stores, and the states of a
  few short runs from the empty controller (each is shown to be the result of its run below).
\<close>

definition body_d1 :: body where
  "body_d1 = \<lparr>body_datasetId = ''d1'', body_parameters = None, body_options = None\<rparr>"

definition job_running :: "string \<Rightarrow> nat \<Rightarrow> computation" where
  "job_running k t =
     \<lparr>comp_id = k, datasetId = ''d1'', status = ''running'', startedAt = t,
      parameters = None, options = None, progress = 0, completedAt = None,
      cancelledAt = None, results = None, error = None\<rparr>"

definition s_one :: state where
  "s_one =
     \<lparr>computations = [(''j1'', job_running ''j1'' 0)],
      schedules = [],
      timers = [\<lparr>timer_id = ''j1'', timer_parameters = None, timer_due = 5000\<rparr>]\<rparr>"

definition es_two :: "event list" where
  "es_two = [Recompute ''j1'' 0 body_d1, Recompute ''j2'' 1 body_d1]"

definition s_two :: state where
  "s_two =
     \<lparr>computations = [(''j1'', job_running ''j1'' 0), (''j2'', job_running ''j2'' 1)],
      schedules = [],
      timers = [\<lparr>timer_id = ''j1'', timer_parameters = None, timer_due = 5000\<rparr>,
                \<lparr>timer_id = ''j2'', timer_parameters = None, timer_due = 5001\<rparr>]\<rparr>"

definition s_cancelled :: state where
  "s_cancelled =
     \<lparr>computations =
        [(''j1'', (job_running ''j1'' 0)\<lparr>status := ''cancelled'', cancelledAt := Some 1\<rparr>)],
      schedules = [],
      timers = [\<lparr>timer_id = ''j1'', timer_parameters = None, timer_due = 5000\<rparr>]\<rparr>"

definition es_mixed :: "event list" where
  "es_mixed = [Recompute ''j1'' 0 body_d1, Recompute ''j2'' 1 body_d1,
               Recompute ''j3'' 2 body_d1, Cancel ''j1'' 10, Timeout 1 5001 (1 / 2)]"

definition s_mixed :: state where
  "s_mixed =
     \<lparr>computations =
        [(''j1'', (job_running ''j1'' 0)\<lparr>status := ''cancelled'', cancelledAt := Some 10\<rparr>),
         (''j2'', (job_running ''j2'' 1)\<lparr>status := ''completed'', progress := 100,
                    completedAt := Some 5001,
                    results := Some \<lparr>accuracy = 9 / 10, iterations = 100,
                                     convergence = True\<rparr>\<rparr>),
         (''j3'', job_running ''j3'' 2)],
      schedules = [],
      timers = [\<lparr>timer_id = ''j1'', timer_parameters = None, timer_due = 5000\<rparr>,
                \<lparr>timer_id = ''j3'', timer_parameters = None, timer_due = 5002\<rparr>]\<rparr>"

section \<open>Lemmas\<close>

subsection \<open>Maps and lists\<close>


lemma map_get_map_set: "map_get (map_set m k v) k' = (if k' = k then Some v else map_get m k')"
  by (induction m) (auto simp: map_get_def)

lemma set_values_map_set: "set (map_values (map_set m k v)) \<subseteq> insert v (set (map_values m))"
  by (induction m) (force simp: map_values_def split: if_splits)+

lemma map_get_in_values: "map_get m k = Some v \<Longrightarrow> v \<in> set (map_values m)"
  unfolding map_get_def map_values_def by (metis map_of_SomeD set_zip_rightD zip_map_fst_snd)

lemma values_map_set_fresh:
  "map_get m k = None \<Longrightarrow> map_values (map_set m k v) = map_values m @ [v]"
  by (induction m) (auto simp: map_values_def map_get_def split: if_splits)

subsection \<open>What one handler does to one key\<close>

lemma trigger_get:
  "map_get (computations (fst (triggerRecomputation s uuid now b))) k =
     (if k = uuid
      then Some \<lparr>comp_id = uuid, datasetId = body_datasetId b, status = ''running'',
             startedAt = now, parameters = body_parameters b, options = body_options b,
             progress = 0, completedAt = None, cancelledAt = None, results = None,
             error = None\<rparr>
      else map_get (computations s) k)"
  by (simp add: triggerRecomputation_def map_get_map_set)

lemma trigger_timers:
  "timers (fst (triggerRecomputation s uuid now b)) =
     timers s @ [\<lparr>timer_id = uuid, timer_parameters = body_parameters b,
                  timer_due = now + 5000\<rparr>]"
  by (simp add: triggerRecomputation_def)

lemma callback_get:
  "map_get (computations (timeout_callback s t now r)) k =
     (case map_get (computations s) (timer_id t) of
        None \<Rightarrow> map_get (computations s) k
      | Some c \<Rightarrow>
          if k = timer_id t
          then Some (c\<lparr>status := ''completed'', progress := 100, completedAt := Some now,
                 results := Some \<lparr>accuracy = r * 0.2 + 0.8,
                                  iterations = iterations_or_default (timer_parameters t),
                                  convergence = True\<rparr>\<rparr>)
          else map_get (computations s) k)"
  by (simp add: timeout_callback_def map_get_map_set split: option.splits)

lemma callback_timers: "timers (timeout_callback s t now r) = timers s"
  by (simp add: timeout_callback_def split: option.splits)

lemma cancel_get:
  "map_get (computations (fst (cancelComputation s k' now))) k =
     (case map_get (computations s) k' of
        None \<Rightarrow> map_get (computations s) k
      | Some c \<Rightarrow>
          if k = k' then Some (c\<lparr>status := ''cancelled'', cancelledAt := Some now\<rparr>)
          else map_get (computations s) k)"
  by (simp add: cancelComputation_def map_get_map_set split: option.splits)

lemma cancel_timers: "timers (fst (cancelComputation s k now)) = timers s"
  by (simp add: cancelComputation_def split: option.splits)

lemma schedule_computations:
  "computations (fst (scheduleComputation s uuid now b)) = computations s"
  "timers (fst (scheduleComputation s uuid now b)) = timers s"
  by (simp_all add: scheduleComputation_def Let_def)

subsection \<open>Invariants of runs\<close>

lemma trigger_values:
  "set (map_values (computations (fst (triggerRecomputation s uuid now b)))) \<subseteq>
     insert \<lparr>comp_id = uuid, datasetId = body_datasetId b, status = ''running'',
             startedAt = now, parameters = body_parameters b, options = body_options b,
             progress = 0, completedAt = None, cancelledAt = None, results = None,
             error = None\<rparr> (set (map_values (computations s)))"
  by (simp add: triggerRecomputation_def set_values_map_set)

lemma callback_values:
  assumes "x \<in> set (map_values (computations (timeout_callback s t now r)))"
  shows "x \<in> set (map_values (computations s)) \<or>
         (\<exists>c\<in>set (map_values (computations s)).
            x = c\<lparr>status := ''completed'', progress := 100, completedAt := Some now,
                   results := Some \<lparr>accuracy = r * 0.2 + 0.8,
                                  iterations = iterations_or_default (timer_parameters t),
                                  convergence = True\<rparr>\<rparr>)"
proof (cases "map_get (computations s) (timer_id t)")
  case None
  with assms show ?thesis by (simp add: timeout_callback_def)
next
  case (Some c)
  have "c \<in> set (map_values (computations s))"
    using Some by (rule map_get_in_values)
  moreover have "x \<in> insert (c\<lparr>status := ''completed'', progress := 100, completedAt := Some now,
                   results := Some \<lparr>accuracy = r * 0.2 + 0.8,
                                  iterations = iterations_or_default (timer_parameters t),
                                  convergence = True\<rparr>\<rparr>) (set (map_values (computations s)))"
    using assms Some set_values_map_set by (fastforce simp: timeout_callback_def)
  ultimately show ?thesis by blast
qed

lemma cancel_values:
  assumes "x \<in> set (map_values (computations (fst (cancelComputation s k now))))"
  shows "x \<in> set (map_values (computations s)) \<or>
         (\<exists>c\<in>set (map_values (computations s)).
            x = c\<lparr>status := ''cancelled'', cancelledAt := Some now\<rparr>)"
proof (cases "map_get (computations s) k")
  case None
  with assms show ?thesis by (simp add: cancelComputation_def)
next
  case (Some c)
  have "c \<in> set (map_values (computations s))"
    using Some by (rule map_get_in_values)
  moreover have "x \<in> insert (c\<lparr>status := ''cancelled'', cancelledAt := Some now\<rparr>)
                    (set (map_values (computations s)))"
    using assms Some set_values_map_set by (fastforce simp: cancelComputation_def)
  ultimately show ?thesis by blast
qed

lemma step_job_inv:
  assumes "step s e = Some s'"
      and "\<forall>c\<in>set (map_values (computations s)). job_inv c"
  shows "\<forall>c\<in>set (map_values (computations s')). job_inv c"
proof (cases e)
  case (Recompute uuid now b)
  with assms(1) have s': "s' = fst (triggerRecomputation s uuid now b)"
    by (simp split: if_splits)
  show ?thesis
  proof
    fix x assume "x \<in> set (map_values (computations s'))"
    with trigger_values [of s uuid now b]
    have "x = \<lparr>comp_id = uuid, datasetId = body_datasetId b, status = ''running'',
             startedAt = now, parameters = body_parameters b, options = body_options b,
             progress = 0, completedAt = None, cancelledAt = None, results = None,
             error = None\<rparr> \<or> x \<in> set (map_values (computations s))"
      unfolding s' by blast
    with assms(2) show "job_inv x" by (auto simp: job_inv_def)
  qed
next
  case (Timeout i now r)
  with assms(1) have s': "s' = timeout_callback (s\<lparr>timers := remove_nth i (timers s)\<rparr>) (timers s ! i) now r"
    by (simp split: if_splits)
  show ?thesis
  proof
    fix x assume "x \<in> set (map_values (computations s'))"
    from callback_values [OF this [unfolded s']] assms(2)
    show "job_inv x" by (auto simp: job_inv_def)
  qed
next
  case (Cancel k now)
  with assms(1) have s': "s' = fst (cancelComputation s k now)" by simp
  show ?thesis
  proof
    fix x assume "x \<in> set (map_values (computations s'))"
    from cancel_values [OF this [unfolded s']] assms(2)
    show "job_inv x" by (auto simp: job_inv_def)
  qed
next
  case (Schedule uuid now b)
  with assms show ?thesis by (auto simp: schedule_computations split: if_splits)
qed

lemma run_job_inv:
  assumes "run s es = Some s'"
      and "\<forall>c\<in>set (map_values (computations s)). job_inv c"
  shows "\<forall>c\<in>set (map_values (computations s')). job_inv c"
  using assms
proof (induction es arbitrary: s)
  case Nil
  then show ?case by simp
next
  case (Cons e es)
  then obtain s1 where s1: "step s e = Some s1" and r: "run s1 es = Some s'"
    by (auto split: option.splits)
  from step_job_inv [OF s1 Cons.prems(2)] Cons.IH [OF r] show ?case by blast
qed

lemma reachable_job_inv:
  assumes "run init_state es = Some s" and "c \<in> set (map_values (computations s))"
  shows "job_inv c"
proof -
  have "\<forall>c\<in>set (map_values (computations init_state)). job_inv c"
    by (simp add: init_state_def map_values_def)
  from run_job_inv [OF assms(1) this] assms(2) show ?thesis by blast
qed


subsection \<open>Pending callbacks\<close>

lemma set_map_set: "set (map_set m k v) \<subseteq> insert (k, v) (set m)"
  by (induction m) (auto split: if_splits)

lemma map_get_in_set: "map_get m k = Some v \<Longrightarrow> (k, v) \<in> set m"
  by (simp add: map_get_def map_of_SomeD)

lemma set_remove_nth: "set (remove_nth i xs) \<subseteq> set xs"
  unfolding remove_nth_def by (auto dest: in_set_takeD in_set_dropD)

lemma remove_nth_split:
  assumes "i < length xs"
  shows "xs = take i xs @ xs ! i # drop (Suc i) xs"
  using assms by (simp add: id_take_nth_drop)

lemma distinct_split_remove:
  assumes "distinct (map f (as @ x # bs))"
  shows "distinct (map f (as @ bs)) \<and> (\<forall>t\<in>set (as @ bs). f t \<noteq> f x)"
proof -
  have "f x \<notin> f ` set as" and "f x \<notin> f ` set bs" using assms by auto
  then have "\<forall>t\<in>set (as @ bs). f t \<noteq> f x" by (metis UnE image_eqI set_append)
  moreover have "distinct (map f (as @ bs))" using assms by auto
  ultimately show ?thesis by blast
qed

lemma distinct_remove_nth:
  assumes "distinct (map f xs)" and "i < length xs"
  shows "distinct (map f (remove_nth i xs))"
proof -
  have "distinct (map f (take i xs @ xs ! i # drop (Suc i) xs))"
    using assms remove_nth_split [OF assms(2)] by simp
  from distinct_split_remove [OF this] show ?thesis by (simp add: remove_nth_def)
qed

lemma remove_nth_other:
  assumes "distinct (map f xs)" and "i < length xs" and "t \<in> set (remove_nth i xs)"
  shows "f t \<noteq> f (xs ! i)"
proof -
  have "distinct (map f (take i xs @ xs ! i # drop (Suc i) xs))"
    using assms remove_nth_split [OF assms(2)] by simp
  from distinct_split_remove [OF this] assms(3) show ?thesis by (simp add: remove_nth_def)
qed


lemma store_invD_timer:
  assumes "store_inv s" and "t \<in> set (timers s)"
  obtains c where "map_get (computations s) (timer_id t) = Some c"
    and "completedAt c = None" and "timer_parameters t = parameters c"
  using assms unfolding store_inv_def by (auto split: option.splits)

lemma store_invD_id:
  assumes "store_inv s" and "map_get (computations s) k = Some c"
  shows "comp_id c = k"
  using assms map_get_in_set [OF assms(2)] unfolding store_inv_def by auto

lemma store_invI:
  assumes "distinct (map timer_id (timers s))"
      and "\<And>t. t \<in> set (timers s) \<Longrightarrow>
             \<exists>c. map_get (computations s) (timer_id t) = Some c \<and> completedAt c = None \<and>
                 timer_parameters t = parameters c"
      and "\<And>k c. (k, c) \<in> set (computations s) \<Longrightarrow> comp_id c = k"
  shows "store_inv s"
  unfolding store_inv_def using assms by (fastforce split: option.splits)

lemma trigger_store_inv:
  assumes inv: "store_inv s" and fresh: "map_get (computations s) uuid = None"
  shows "store_inv (fst (triggerRecomputation s uuid now b))"
proof (rule store_invI)
  have "uuid \<notin> timer_id ` set (timers s)"
  proof
    assume "uuid \<in> timer_id ` set (timers s)"
    then obtain t where "t \<in> set (timers s)" and "timer_id t = uuid" by auto
    with inv fresh show False by (auto elim: store_invD_timer)
  qed
  moreover have "distinct (map timer_id (timers s))" using inv by (simp add: store_inv_def)
  ultimately show "distinct (map timer_id (timers (fst (triggerRecomputation s uuid now b))))"
    by (simp add: trigger_timers)
next
  fix t assume "t \<in> set (timers (fst (triggerRecomputation s uuid now b)))"
  then consider "t \<in> set (timers s)"
    | "t = \<lparr>timer_id = uuid, timer_parameters = body_parameters b, timer_due = now + 5000\<rparr>"
    by (auto simp: trigger_timers)
  then show "\<exists>c. map_get (computations (fst (triggerRecomputation s uuid now b))) (timer_id t) = Some c \<and>
               completedAt c = None \<and> timer_parameters t = parameters c"
  proof cases
    case 1
    from store_invD_timer [OF inv 1] obtain c where
      c: "map_get (computations s) (timer_id t) = Some c" "completedAt c = None"
         "timer_parameters t = parameters c" by blast
    with fresh have "timer_id t \<noteq> uuid" by auto
    with c show ?thesis by (simp add: trigger_get)
  next
    case 2
    then show ?thesis by (simp add: trigger_get)
  qed
next
  fix k c assume "(k, c) \<in> set (computations (fst (triggerRecomputation s uuid now b)))"
  then have "(k, c) \<in> insert (uuid, \<lparr>comp_id = uuid, datasetId = body_datasetId b, status = ''running'',
             startedAt = now, parameters = body_parameters b, options = body_options b,
             progress = 0, completedAt = None, cancelledAt = None, results = None,
             error = None\<rparr>) (set (computations s))"
    using set_map_set by (fastforce simp: triggerRecomputation_def)
  with inv show "comp_id c = k" by (auto simp: store_inv_def)
qed

lemma cancel_store_inv:
  assumes inv: "store_inv s"
  shows "store_inv (fst (cancelComputation s k' now))"
proof (rule store_invI)
  show "distinct (map timer_id (timers (fst (cancelComputation s k' now))))"
    using inv by (simp add: cancel_timers store_inv_def)
next
  fix t assume "t \<in> set (timers (fst (cancelComputation s k' now)))"
  then have "t \<in> set (timers s)" by (simp add: cancel_timers)
  from store_invD_timer [OF inv this] obtain c where
    c: "map_get (computations s) (timer_id t) = Some c" "completedAt c = None"
       "timer_parameters t = parameters c" by blast
  then show "\<exists>c. map_get (computations (fst (cancelComputation s k' now))) (timer_id t) = Some c \<and>
               completedAt c = None \<and> timer_parameters t = parameters c"
    by (auto simp: cancel_get split: option.splits)
next
  fix k c assume kc: "(k, c) \<in> set (computations (fst (cancelComputation s k' now)))"
  show "comp_id c = k"
  proof (cases "map_get (computations s) k'")
    case None
    with kc inv show ?thesis by (auto simp: cancelComputation_def store_inv_def)
  next
    case (Some c0)
    with kc have "(k, c) \<in> insert (k', c0\<lparr>status := ''cancelled'', cancelledAt := Some now\<rparr>)
                    (set (computations s))"
      using set_map_set by (fastforce simp: cancelComputation_def)
    with inv store_invD_id [OF inv Some] show ?thesis by (auto simp: store_inv_def)
  qed
qed

lemma store_invD_pair:
  assumes "store_inv s" and "(k, c) \<in> set (computations s)"
  shows "comp_id c = k"
  using assms unfolding store_inv_def by blast

lemma callback_store_inv:
  assumes inv: "store_inv s" and i: "i < length (timers s)"
  shows "store_inv (timeout_callback (s\<lparr>timers := remove_nth i (timers s)\<rparr>) (timers s ! i) now r)"
    (is "store_inv ?s'")
proof (rule store_invI)
  have "distinct (map timer_id (timers s))" using inv by (simp add: store_inv_def)
  then show "distinct (map timer_id (timers ?s'))"
    using i by (simp add: callback_timers distinct_remove_nth)
next
  fix t assume "t \<in> set (timers ?s')"
  then have t: "t \<in> set (remove_nth i (timers s))" by (simp add: callback_timers)
  have "distinct (map timer_id (timers s))" using inv by (simp add: store_inv_def)
  from remove_nth_other [OF this i t] have ne: "timer_id t \<noteq> timer_id (timers s ! i)" .
  have "t \<in> set (timers s)" using t set_remove_nth [of i "timers s"] by (rule subsetD [rotated])
  from store_invD_timer [OF inv this] obtain c where
    c: "map_get (computations s) (timer_id t) = Some c" "completedAt c = None"
       "timer_parameters t = parameters c" by blast
  have "map_get (computations ?s') (timer_id t) = map_get (computations s) (timer_id t)"
    using ne by (simp add: callback_get split: option.splits)
  with c show "\<exists>c. map_get (computations ?s') (timer_id t) = Some c \<and>
               completedAt c = None \<and> timer_parameters t = parameters c"
    by simp
next
  fix k c assume kc: "(k, c) \<in> set (computations ?s')"
  show "comp_id c = k"
  proof (cases "map_get (computations s) (timer_id (timers s ! i))")
    case None
    then have "computations ?s' = computations s" by (simp add: timeout_callback_def)
    with kc store_invD_pair [OF inv] show ?thesis by simp
  next
    case (Some c0)
    let ?c1 = "c0\<lparr>status := ''completed'', progress := 100, completedAt := Some now,
                  results := Some \<lparr>accuracy = r * 0.2 + 0.8,
                    iterations = iterations_or_default (timer_parameters (timers s ! i)),
                    convergence = True\<rparr>\<rparr>"
    from Some have "computations ?s' = map_set (computations s) (timer_id (timers s ! i)) ?c1"
      by (simp add: timeout_callback_def)
    with kc set_map_set [of "computations s" "timer_id (timers s ! i)" ?c1]
    have "(k, c) = (timer_id (timers s ! i), ?c1) \<or> (k, c) \<in> set (computations s)"
      by auto
    then show ?thesis
    proof
      assume "(k, c) = (timer_id (timers s ! i), ?c1)"
      with store_invD_id [OF inv Some] show ?thesis by simp
    next
      assume "(k, c) \<in> set (computations s)"
      with store_invD_pair [OF inv] show ?thesis by simp
    qed
  qed
qed

lemma step_store_inv:
  assumes "step s e = Some s'" and "store_inv s"
  shows "store_inv s'"
proof (cases e)
  case (Recompute uuid now b)
  with assms trigger_store_inv show ?thesis by (auto split: if_splits)
next
  case (Timeout i now r)
  with assms callback_store_inv show ?thesis by (auto split: if_splits)
next
  case (Cancel k now)
  with assms cancel_store_inv show ?thesis by auto
next
  case (Schedule uuid now b)
  with assms show ?thesis
    by (auto simp: store_inv_def scheduleComputation_def Let_def split: if_splits)
qed

lemma run_store_inv:
  assumes "run s es = Some s'" and "store_inv s"
  shows "store_inv s'"
  using assms
proof (induction es arbitrary: s)
  case Nil
  then show ?case by simp
next
  case (Cons e es)
  then obtain s1 where s1: "step s e = Some s1" and r: "run s1 es = Some s'"
    by (auto split: option.splits)
  from Cons.IH [OF r step_store_inv [OF s1 Cons.prems(2)]] show ?case .
qed

lemma reachable_store_inv:
  assumes "run init_state es = Some s"
  shows "store_inv s"
proof -
  have "store_inv init_state" by (simp add: store_inv_def init_state_def)
  from run_store_inv [OF assms this] show ?thesis .
qed

subsection \<open>Sample runs\<close>

lemmas demo_defs = body_d1_def job_running_def s_mixed_def es_mixed_def init_state_def
  triggerRecomputation_def cancelComputation_def timeout_callback_def map_get_def
  remove_nth_def iterations_or_default_def

lemma run_es_mixed: "run init_state es_mixed = Some s_mixed"
  by (simp add: demo_defs)

lemma run_es_two: "run init_state es_two = Some s_two"
  by (simp add: es_two_def s_two_def demo_defs)

subsection \<open>Counting by status\<close>

lemma count_status_partition:
  assumes "\<forall>c\<in>set cs. status c = ''running'' \<or> status c = ''completed'' \<or> status c = ''cancelled''"
  shows "length cs = count_status cs ''running'' + count_status cs ''completed'' +
           count_status cs ''cancelled'' \<and> count_status cs ''failed'' = 0"
  using assms by (induction cs) (auto simp: count_status_def)

subsection \<open>Terminal states\<close>

lemma step_terminal_kept:
  assumes inv: "store_inv s" and st: "step s e = Some s'"
      and k: "map_get (computations s) k = Some c" and t: "terminal (status c)"
  shows "\<exists>c'. map_get (computations s') k = Some c' \<and> terminal_kept c c'"
proof (cases e)
  case (Recompute uuid now b)
  with st have fresh: "map_get (computations s) uuid = None"
    and s': "s' = fst (triggerRecomputation s uuid now b)"
    by (simp_all split: if_splits)
  from fresh k have "k \<noteq> uuid" by auto
  with k t show ?thesis unfolding s' by (simp add: trigger_get terminal_kept_def)
next
  case (Timeout i now r)
  with st have i: "i < length (timers s)"
    and s': "s' = timeout_callback (s\<lparr>timers := remove_nth i (timers s)\<rparr>) (timers s ! i) now r"
    by (simp_all split: if_splits)
  show ?thesis
  proof (cases "timer_id (timers s ! i) = k")
    case True
    from i have "timers s ! i \<in> set (timers s)" by simp
    from store_invD_timer [OF inv this] True k have "completedAt c = None" by auto
    with True k show ?thesis unfolding s'
      by (simp add: callback_get terminal_kept_def terminal_def)
  next
    case False
    with k t show ?thesis unfolding s'
      by (simp add: callback_get terminal_kept_def split: option.splits)
  qed
next
  case (Cancel k' now)
  with st have s': "s' = fst (cancelComputation s k' now)" by simp
  from k t show ?thesis unfolding s'
    by (auto simp: cancel_get terminal_kept_def terminal_def split: option.splits)
next
  case (Schedule uuid now b)
  with st have "computations s' = computations s"
    by (auto simp: schedule_computations split: if_splits)
  with k t show ?thesis by (simp add: terminal_kept_def)
qed

lemma terminal_kept_trans:
  assumes "terminal_kept c c1" and "terminal_kept c1 c2"
  shows "terminal_kept c c2"
  using assms by (auto simp: terminal_kept_def)

lemma run_terminal_kept:
  assumes "run s es = Some s'" and "store_inv s"
      and "map_get (computations s) k = Some c" and "terminal (status c)"
  shows "\<exists>c'. map_get (computations s') k = Some c' \<and> terminal_kept c c'"
  using assms
proof (induction es arbitrary: s c)
  case Nil
  then show ?case by (simp add: terminal_kept_def)
next
  case (Cons e es)
  then obtain s1 where s1: "step s e = Some s1" and r: "run s1 es = Some s'"
    by (auto split: option.splits)
  from step_terminal_kept [OF Cons.prems(2) s1 Cons.prems(3) Cons.prems(4)]
  obtain c1 where c1: "map_get (computations s1) k = Some c1" and k1: "terminal_kept c c1"
    by blast
  from k1 have "terminal (status c1)" by (simp add: terminal_kept_def)
  from Cons.IH [OF r step_store_inv [OF s1 Cons.prems(2)] c1 this]
  obtain c' where "map_get (computations s') k = Some c'" and "terminal_kept c1 c'" by blast
  with k1 terminal_kept_trans show ?case by blast
qed

subsection \<open>Slices\<close>

lemma slice_from_zero: "slice xs (Num 0) e = take (rel_index (length xs) (to_integer e)) xs"
  by (simp add: slice_def rel_index_def to_integer_def Let_def)

lemma slice_from_zero_nonneg:
  assumes "0 \<le> l"
  shows "slice xs (Num 0) (Num l) = take (nat l) xs"
proof -
  have "rel_index (length xs) l = min (nat l) (length xs)"
    using assms by (simp add: rel_index_def min_def)
  then have "slice xs (Num 0) (Num l) = take (min (nat l) (length xs)) xs"
    by (simp add: slice_from_zero to_integer_def)
  also have "\<dots> = take (nat l) xs"
    by (cases "nat l \<le> length xs") (simp_all add: min_def)
  finally show ?thesis .
qed

subsection \<open>What a request leaves as it is\<close>

lemma step_fields_kept:
  assumes st: "step s e = Some s'" and k: "map_get (computations s) k = Some c"
  shows "\<exists>c'. map_get (computations s') k = Some c' \<and> datasetId c' = datasetId c \<and>
              parameters c' = parameters c"
proof (cases e)
  case (Recompute uuid now b)
  with st have fresh: "map_get (computations s) uuid = None"
    and s': "s' = fst (triggerRecomputation s uuid now b)"
    by (simp_all split: if_splits)
  from fresh k have "k \<noteq> uuid" by auto
  with k show ?thesis unfolding s' by (simp add: trigger_get)
next
  case (Timeout i now r)
  with st have
    s': "s' = timeout_callback (s\<lparr>timers := remove_nth i (timers s)\<rparr>) (timers s ! i) now r"
    by (simp_all split: if_splits)
  from k show ?thesis unfolding s'
    by (auto simp: callback_get split: option.splits)
next
  case (Cancel k' now)
  with st have s': "s' = fst (cancelComputation s k' now)" by simp
  from k show ?thesis unfolding s'
    by (auto simp: cancel_get split: option.splits)
next
  case (Schedule uuid now b)
  with st have "computations s' = computations s"
    by (auto simp: schedule_computations split: if_splits)
  with k show ?thesis by simp
qed

lemma run_fields_kept:
  assumes "run s es = Some s'" and "map_get (computations s) k = Some c"
  shows "\<exists>c'. map_get (computations s') k = Some c' \<and> datasetId c' = datasetId c \<and>
              parameters c' = parameters c"
  using assms
proof (induction es arbitrary: s c)
  case Nil
  then show ?case by simp
next
  case (Cons e es)
  then obtain s1 where s1: "step s e = Some s1" and r: "run s1 es = Some s'"
    by (auto split: option.splits)
  from step_fields_kept [OF s1 Cons.prems(2)]
  obtain c1 where c1: "map_get (computations s1) k = Some c1"
    and e1: "datasetId c1 = datasetId c" "parameters c1 = parameters c" by blast
  from Cons.IH [OF r c1] e1 show ?case by auto
qed

lemma run_append:
  "run s (xs @ ys) = (case run s xs of None \<Rightarrow> None | Some s' \<Rightarrow> run s' ys)"
  by (induction xs arbitrary: s) (auto split: option.splits)

lemma callback_on_running_job:
  assumes reach: "run init_state es = Some s"
      and k: "map_get (computations s) k = Some c"
      and d1: "datasetId c = ''d1''"
      and noit: "no_iterations (parameters c)"
      and running: "status c = ''running''"
      and i: "i < length (timers s)"
      and tid: "timer_id (timers s ! i) = k"
      and due: "timer_due (timers s ! i) \<le> now"
      and r: "0 \<le> r" "r < 1"
  shows "\<exists>s' c' a. step s (Timeout i now r) = Some s' \<and>
           map_get (computations s') k = Some c' \<and>
           status c' = ''completed'' \<and> progress c' = 100 \<and> completedAt c' = Some now \<and>
           getComputationResults s' k =
             ResultsOk (Some \<lparr>accuracy = a, iterations = 100, convergence = True\<rparr>)
               \<lparr>md_computationId = k, md_datasetId = ''d1'', md_completedAt = Some now\<rparr> \<and>
           0 \<le> a \<and> a \<le> 1"
proof -
  let ?t = "timers s ! i"
  let ?s' = "timeout_callback (s\<lparr>timers := remove_nth i (timers s)\<rparr>) ?t now r"
  let ?a = "r * 0.2 + 0.8"
  let ?c' = "c\<lparr>status := ''completed'', progress := 100, completedAt := Some now,
               results := Some \<lparr>accuracy = ?a,
                 iterations = iterations_or_default (timer_parameters ?t),
                 convergence = True\<rparr>\<rparr>"
  have inv: "store_inv s" using reach by (rule reachable_store_inv)
  have "?t \<in> set (timers s)" using i by simp
  from store_invD_timer [OF inv this] k tid
  have tp: "timer_parameters ?t = parameters c" by auto
  have "iterations_or_default (parameters c) = 100"
    using noit by (simp add: no_iterations_def iterations_or_default_def split: option.splits)
  with tp have it: "iterations_or_default (timer_parameters ?t) = 100" by simp
  have cid: "comp_id c = k" using inv k by (rule store_invD_id)
  have st: "step s (Timeout i now r) = Some ?s'" using i due r by simp
  have g: "map_get (computations ?s') k = Some ?c'"
    using k tid by (simp add: callback_get)
  have res: "getComputationResults ?s' k =
      ResultsOk (Some \<lparr>accuracy = ?a, iterations = 100, convergence = True\<rparr>)
        \<lparr>md_computationId = k, md_datasetId = ''d1'', md_completedAt = Some now\<rparr>"
    unfolding getComputationResults_def g using it cid d1 by simp
  have a: "0 \<le> ?a" "?a \<le> 1" using r by simp_all
  have f: "status ?c' = ''completed''" "progress ?c' = 100" "completedAt ?c' = Some now"
    by simp_all
  from st g f res a show ?thesis by blast
qed

section \<open>The claims\<close>

subsection \<open>Reading the results\<close>

text \<open>
  Claim C5. \<open>getComputationResults\<close> answers 404 for an identifier that is not in the map;
  for a stored computation whose status is not \<open>completed\<close> it answers 202 with the current
  status and progress and without a \<open>results\<close> property; for a \<open>completed\<close> one it answers
  200 with the stored results and the metadata.
\<close>

theorem getComputationResults_cases:
  "(map_get (computations s) k = None \<longrightarrow>
      getComputationResults s k = NotFound \<and> http_status (getComputationResults s k) = 404) \<and>
   (\<forall>c. map_get (computations s) k = Some c \<and> status c \<noteq> ''completed'' \<longrightarrow>
      getComputationResults s k = StillInProgress (status c) (progress c) \<and>
      http_status (getComputationResults s k) = 202 \<and>
      \<not> has_results_field (getComputationResults s k)) \<and>
   (\<forall>c. map_get (computations s) k = Some c \<and> status c = ''completed'' \<longrightarrow>
      getComputationResults s k =
        ResultsOk (results c)
          \<lparr>md_computationId = comp_id c, md_datasetId = datasetId c,
           md_completedAt = completedAt c\<rparr> \<and>
      http_status (getComputationResults s k) = 200)"
  by (simp add: getComputationResults_def)

theorem getComputationResults_cases_witness:
  "map_get (computations s_mixed) ''nope'' = None \<and>
   getComputationResults s_mixed ''nope'' = NotFound \<and>
   map_get (computations s_mixed) ''j3'' = Some (job_running ''j3'' 2) \<and>
   status (job_running ''j3'' 2) \<noteq> ''completed'' \<and>
   getComputationResults s_mixed ''j3'' = StillInProgress ''running'' 0 \<and>
   map_get (computations s_mixed) ''j1'' =
     Some ((job_running ''j1'' 0)\<lparr>status := ''cancelled'', cancelledAt := Some 10\<rparr>) \<and>
   getComputationResults s_mixed ''j1'' = StillInProgress ''cancelled'' 0 \<and>
   getComputationResults s_mixed ''j2'' =
     ResultsOk (Some \<lparr>accuracy = 9 / 10, iterations = 100, convergence = True\<rparr>)
       \<lparr>md_computationId = ''j2'', md_datasetId = ''d1'', md_completedAt = Some 5001\<rparr>"
proof -
  have h0: "map_get (computations s_mixed) ''nope'' = None"
    by (simp add: s_mixed_def map_get_def)
  have h3: "map_get (computations s_mixed) ''j3'' = Some (job_running ''j3'' 2)"
    by (simp add: s_mixed_def map_get_def)
  have n3: "status (job_running ''j3'' 2) \<noteq> ''completed''"
    by (simp add: job_running_def)
  have h1: "map_get (computations s_mixed) ''j1'' =
     Some ((job_running ''j1'' 0)\<lparr>status := ''cancelled'', cancelledAt := Some 10\<rparr>)"
    by (simp add: s_mixed_def map_get_def)
  have h2: "map_get (computations s_mixed) ''j2'' =
     Some ((job_running ''j2'' 1)\<lparr>status := ''completed'', progress := 100,
                    completedAt := Some 5001,
                    results := Some \<lparr>accuracy = 9 / 10, iterations = 100,
                                     convergence = True\<rparr>\<rparr>)"
    by (simp add: s_mixed_def map_get_def)
  show ?thesis
    using h0 h1 h2 h3 n3
      getComputationResults_cases [of s_mixed "''nope''"]
      getComputationResults_cases [of s_mixed "''j3''"]
      getComputationResults_cases [of s_mixed "''j1''"]
      getComputationResults_cases [of s_mixed "''j2''"]
    by (simp add: job_running_def)
qed

subsection \<open>Submitting\<close>

text \<open>
  Claim C6. For every request body, \<open>triggerRecomputation\<close> stores under the new identifier
  an object with status \<open>running\<close> and progress 0 (appended to the map when the identifier
  is not yet a key), adds one pending callback for that identifier, due 5000 ms later, and
  answers 202 with the identifier and the status \<open>running\<close>. The handler returns without
  waiting for the callback, and there is no condition on the state.
\<close>

theorem triggerRecomputation_creates_running_job:
  "map_get (computations (fst (triggerRecomputation s uuid now b))) uuid =
     Some \<lparr>comp_id = uuid, datasetId = body_datasetId b, status = ''running'',
           startedAt = now, parameters = body_parameters b, options = body_options b,
           progress = 0, completedAt = None, cancelledAt = None, results = None,
           error = None\<rparr> \<and>
   (map_get (computations s) uuid = None \<longrightarrow>
      map_values (computations (fst (triggerRecomputation s uuid now b))) =
        map_values (computations s) @
          [\<lparr>comp_id = uuid, datasetId = body_datasetId b, status = ''running'',
            startedAt = now, parameters = body_parameters b, options = body_options b,
            progress = 0, completedAt = None, cancelledAt = None, results = None,
            error = None\<rparr>]) \<and>
   timers (fst (triggerRecomputation s uuid now b)) =
     timers s @ [\<lparr>timer_id = uuid, timer_parameters = body_parameters b,
                  timer_due = now + 5000\<rparr>] \<and>
   snd (triggerRecomputation s uuid now b) = Initiated uuid ''running'' \<and>
   http_status (snd (triggerRecomputation s uuid now b)) = 202"
  by (simp add: triggerRecomputation_def map_get_map_set values_map_set_fresh)

theorem triggerRecomputation_creates_running_job_witness:
  "map_get (computations s_mixed) ''j4'' = None \<and>
   map_get (computations (fst (triggerRecomputation s_mixed ''j4'' 7 body_d1))) ''j4'' =
     Some (job_running ''j4'' 7) \<and>
   map_values (computations (fst (triggerRecomputation s_mixed ''j4'' 7 body_d1))) =
     map_values (computations s_mixed) @ [job_running ''j4'' 7] \<and>
   timers (fst (triggerRecomputation s_mixed ''j4'' 7 body_d1)) =
     timers s_mixed @ [\<lparr>timer_id = ''j4'', timer_parameters = None, timer_due = 5007\<rparr>] \<and>
   snd (triggerRecomputation s_mixed ''j4'' 7 body_d1) = Initiated ''j4'' ''running''"
proof -
  have h: "map_get (computations s_mixed) ''j4'' = None"
    by (simp add: s_mixed_def map_get_def)
  show ?thesis
    using h triggerRecomputation_creates_running_job [of s_mixed "''j4''" 7 body_d1]
    by (simp add: body_d1_def job_running_def)
qed

subsection \<open>Statuses and metrics\<close>

text \<open>
  Claim C10. In every state the controller can reach, every stored computation has one of the
  statuses \<open>running\<close>, \<open>completed\<close>, \<open>cancelled\<close> (no handler and no callback assigns
  \<open>pending\<close> or \<open>failed\<close>), so the metrics satisfy
  \<open>total = running + completed + failed + cancelled\<close> with \<open>failed = 0\<close>.
\<close>

theorem reachable_statuses_and_metrics:
  assumes "run init_state es = Some s"
  shows "(\<forall>c\<in>set (map_values (computations s)).
            status c = ''running'' \<or> status c = ''completed'' \<or> status c = ''cancelled'') \<and>
         m_total (getMetrics s) =
           m_running (getMetrics s) + m_completed (getMetrics s) + m_failed (getMetrics s) +
           m_cancelled (getMetrics s) \<and>
         m_failed (getMetrics s) = 0"
proof -
  have st: "\<forall>c\<in>set (map_values (computations s)).
            status c = ''running'' \<or> status c = ''completed'' \<or> status c = ''cancelled''"
    using reachable_job_inv [OF assms] by (simp add: job_inv_def)
  from count_status_partition [OF st] st show ?thesis
    by (simp add: getMetrics_def Let_def)
qed

theorem reachable_statuses_and_metrics_witness:
  "run init_state es_mixed = Some s_mixed \<and>
   map status (map_values (computations s_mixed)) = [''cancelled'', ''completed'', ''running''] \<and>
   m_total (getMetrics s_mixed) = 3 \<and> m_running (getMetrics s_mixed) = 1 \<and>
   m_completed (getMetrics s_mixed) = 1 \<and> m_cancelled (getMetrics s_mixed) = 1 \<and>
   m_failed (getMetrics s_mixed) = 0"
proof -
  have h: "run init_state es_mixed = Some s_mixed" by (rule run_es_mixed)
  have v: "map status (map_values (computations s_mixed)) = [''cancelled'', ''completed'', ''running'']"
    by (simp add: s_mixed_def map_values_def job_running_def)
  have r: "m_running (getMetrics s_mixed) = 1" "m_completed (getMetrics s_mixed) = 1"
     "m_cancelled (getMetrics s_mixed) = 1"
    by (simp_all add: getMetrics_def count_status_def s_mixed_def map_values_def job_running_def)
  show ?thesis
    using h v r reachable_statuses_and_metrics [OF h] by simp
qed

subsection \<open>Results and errors\<close>

text \<open>
  Claim C4 says that \<open>results\<close> is present exactly for status \<open>completed\<close> and that a
  cancelled computation has neither results nor error. A computation that is cancelled
  after its callback has run is \<open>cancelled\<close> and keeps its results.
\<close>

theorem cancelled_job_keeps_results_counterexample:
  "map_option status
     (job_after init_state
        [Recompute ''j1'' 0 body_d1, Timeout 0 5000 (1 / 2), Cancel ''j1'' 6000] ''j1'') =
     Some ''cancelled'' \<and>
   map_option results
     (job_after init_state
        [Recompute ''j1'' 0 body_d1, Timeout 0 5000 (1 / 2), Cancel ''j1'' 6000] ''j1'') =
     Some (Some \<lparr>accuracy = 9 / 10, iterations = 100, convergence = True\<rparr>)"
  by (simp add: job_after_def demo_defs)

text \<open>
  Claim C4, as amended. In every reachable state, for every stored computation: results are
  present when the status is \<open>completed\<close> and absent when it is \<open>running\<close>; they are present
  exactly when \<open>completedAt\<close> is set (so a cancelled computation has them exactly when its
  callback ran before); \<open>error\<close> is never present and the status is never \<open>failed\<close>, so
  results and error exclude each other.
\<close>

theorem reachable_results_and_error:
  assumes "run init_state es = Some s" and "c \<in> set (map_values (computations s))"
  shows "(status c = ''completed'' \<longrightarrow> results c \<noteq> None) \<and>
         (status c = ''running'' \<longrightarrow> results c = None) \<and>
         (results c \<noteq> None \<longleftrightarrow> completedAt c \<noteq> None) \<and>
         error c = None \<and> status c \<noteq> ''failed'' \<and>
         \<not> (results c \<noteq> None \<and> error c \<noteq> None)"
  using reachable_job_inv [OF assms] by (auto simp: job_inv_def)

theorem reachable_results_and_error_witness:
  "run init_state es_mixed = Some s_mixed \<and>
   (job_running ''j2'' 1)\<lparr>status := ''completed'', progress := 100, completedAt := Some 5001,
      results := Some \<lparr>accuracy = 9 / 10, iterations = 100, convergence = True\<rparr>\<rparr>
     \<in> set (map_values (computations s_mixed)) \<and>
   results ((job_running ''j2'' 1)\<lparr>status := ''completed'', progress := 100,
      completedAt := Some 5001,
      results := Some \<lparr>accuracy = 9 / 10, iterations = 100, convergence = True\<rparr>\<rparr>) \<noteq> None \<and>
   error ((job_running ''j2'' 1)\<lparr>status := ''completed'', progress := 100,
      completedAt := Some 5001,
      results := Some \<lparr>accuracy = 9 / 10, iterations = 100, convergence = True\<rparr>\<rparr>) = None"
proof -
  have h: "run init_state es_mixed = Some s_mixed" by (rule run_es_mixed)
  have m: "(job_running ''j2'' 1)\<lparr>status := ''completed'', progress := 100,
      completedAt := Some 5001,
      results := Some \<lparr>accuracy = 9 / 10, iterations = 100, convergence = True\<rparr>\<rparr>
     \<in> set (map_values (computations s_mixed))"
    by (simp add: s_mixed_def map_values_def)
  show ?thesis
    using h m reachable_results_and_error [OF h m] by simp
qed

subsection \<open>The callback after a cancellation\<close>

text \<open>
  Claim C1 says that the callback leaves a cancelled computation alone. The callback tests
  only \<open>if (comp)\<close>; run after a cancellation it makes the computation \<open>completed\<close>.
\<close>

theorem late_trigger_overwrites_cancelled_counterexample:
  "map_option status
     (job_after init_state [Recompute ''j1'' 0 body_d1, Cancel ''j1'' 1] ''j1'') =
     Some ''cancelled'' \<and>
   map_option status
     (job_after init_state
        [Recompute ''j1'' 0 body_d1, Cancel ''j1'' 1, Timeout 0 5000 (1 / 2)] ''j1'') =
     Some ''completed''"
  by (simp add: job_after_def demo_defs)

text \<open>
  Claim C1, as amended. When the callback of a computation runs and the computation is in
  the map, then whatever its status is (also \<open>cancelled\<close>) the status becomes \<open>completed\<close>,
  the progress 100, \<open>completedAt\<close> the time of the run, and results are attached; the other
  properties, among them \<open>cancelledAt\<close>, stay as they are.
\<close>

theorem trigger_completes_whatever_status:
  assumes "i < length (timers s)" and "timer_due (timers s ! i) \<le> now"
      and "0 \<le> r" and "r < 1"
      and "map_get (computations s) (timer_id (timers s ! i)) = Some c"
  shows "job_after s [Timeout i now r] (timer_id (timers s ! i)) =
           Some (c\<lparr>status := ''completed'', progress := 100, completedAt := Some now,
                   results := Some \<lparr>accuracy = r * 0.2 + 0.8,
                     iterations = iterations_or_default (timer_parameters (timers s ! i)),
                     convergence = True\<rparr>\<rparr>)"
  using assms by (simp add: job_after_def callback_get)

theorem trigger_completes_whatever_status_witness:
  "run init_state [Recompute ''j1'' 0 body_d1, Cancel ''j1'' 1] = Some s_cancelled \<and>
   (0::nat) < length (timers s_cancelled) \<and> timer_due (timers s_cancelled ! 0) \<le> 5000 \<and>
   (0::real) \<le> 1 / 2 \<and> (1 / 2 :: real) < 1 \<and>
   map_get (computations s_cancelled) (timer_id (timers s_cancelled ! 0)) =
     Some ((job_running ''j1'' 0)\<lparr>status := ''cancelled'', cancelledAt := Some 1\<rparr>) \<and>
   job_after s_cancelled [Timeout 0 5000 (1 / 2)] ''j1'' =
     Some ((job_running ''j1'' 0)\<lparr>status := ''completed'', progress := 100,
             completedAt := Some 5000, cancelledAt := Some 1,
             results := Some \<lparr>accuracy = 9 / 10, iterations = 100, convergence = True\<rparr>\<rparr>)"
proof -
  have r: "run init_state [Recompute ''j1'' 0 body_d1, Cancel ''j1'' 1] = Some s_cancelled"
    by (simp add: demo_defs s_cancelled_def)
  have h1: "(0::nat) < length (timers s_cancelled)" by (simp add: s_cancelled_def)
  have h2: "timer_due (timers s_cancelled ! 0) \<le> 5000" by (simp add: s_cancelled_def)
  have h3: "(0::real) \<le> 1 / 2" by simp
  have h4: "(1 / 2 :: real) < 1" by simp
  have h5: "map_get (computations s_cancelled) (timer_id (timers s_cancelled ! 0)) =
     Some ((job_running ''j1'' 0)\<lparr>status := ''cancelled'', cancelledAt := Some 1\<rparr>)"
    by (simp add: s_cancelled_def map_get_def)
  show ?thesis
    using r h1 h2 h3 h4 h5 trigger_completes_whatever_status [OF h1 h2 h3 h4 h5]
    by (simp add: s_cancelled_def job_running_def iterations_or_default_def)
qed

subsection \<open>Cancelling\<close>

text \<open>
  Claim C2 says that cancelling a computation in a terminal state fails with 409 and leaves
  the timestamps alone. The handler has no test of the status: on a completed computation
  it answers 200 and sets \<open>cancelledAt\<close>.
\<close>

theorem cancel_terminal_succeeds_counterexample:
  "run init_state es_mixed = Some s_mixed \<and>
   map_option status (map_get (computations s_mixed) ''j2'') = Some ''completed'' \<and>
   map_option cancelledAt (map_get (computations s_mixed) ''j2'') = Some None \<and>
   snd (cancelComputation s_mixed ''j2'' 6000) = CancelledOk ''j2'' ''cancelled'' \<and>
   http_status (snd (cancelComputation s_mixed ''j2'' 6000)) = 200 \<and>
   map_option cancelledAt
     (map_get (computations (fst (cancelComputation s_mixed ''j2'' 6000))) ''j2'') =
     Some (Some 6000)"
  using run_es_mixed
  by (simp add: s_mixed_def cancelComputation_def map_get_def job_running_def)

text \<open>
  Claim C2, as amended. \<open>cancelComputation\<close> answers 404 and changes nothing when the
  identifier is unknown; for every known identifier, whatever the status, it answers 200,
  sets the status to \<open>cancelled\<close> and \<open>cancelledAt\<close> to the current time, and leaves the other
  properties (among them \<open>completedAt\<close>) as they are.
\<close>

theorem cancel_known_always_succeeds:
  "(map_get (computations s) k = None \<longrightarrow>
      cancelComputation s k now = (s, NotFound) \<and>
      http_status (snd (cancelComputation s k now)) = 404) \<and>
   (\<forall>c. map_get (computations s) k = Some c \<longrightarrow>
      snd (cancelComputation s k now) = CancelledOk (comp_id c) ''cancelled'' \<and>
      http_status (snd (cancelComputation s k now)) = 200 \<and>
      map_get (computations (fst (cancelComputation s k now))) k =
        Some (c\<lparr>status := ''cancelled'', cancelledAt := Some now\<rparr>))"
  by (simp add: cancelComputation_def map_get_map_set)

theorem cancel_known_always_succeeds_witness:
  "map_get (computations s_mixed) ''nope'' = None \<and>
   cancelComputation s_mixed ''nope'' 6000 = (s_mixed, NotFound) \<and>
   map_get (computations s_mixed) ''j3'' = Some (job_running ''j3'' 2) \<and>
   snd (cancelComputation s_mixed ''j3'' 6000) = CancelledOk ''j3'' ''cancelled'' \<and>
   map_get (computations (fst (cancelComputation s_mixed ''j3'' 6000))) ''j3'' =
     Some ((job_running ''j3'' 2)\<lparr>status := ''cancelled'', cancelledAt := Some 6000\<rparr>)"
proof -
  have h0: "map_get (computations s_mixed) ''nope'' = None"
    by (simp add: s_mixed_def map_get_def)
  have h3: "map_get (computations s_mixed) ''j3'' = Some (job_running ''j3'' 2)"
    by (simp add: s_mixed_def map_get_def)
  show ?thesis
    using h0 h3 cancel_known_always_succeeds [of s_mixed "''nope''" 6000]
      cancel_known_always_succeeds [of s_mixed "''j3''" 6000]
    by (simp add: job_running_def)
qed

subsection \<open>Terminal states and their timestamps\<close>

text \<open>
  Claim C3 says that at most one of \<open>completedAt\<close> and \<open>cancelledAt\<close> is ever set and each
  at most once. A computation that is cancelled and whose callback runs afterwards has both,
  and a second cancellation writes \<open>cancelledAt\<close> again.
\<close>

theorem both_timestamps_set_counterexample:
  "map_option completedAt
     (job_after init_state
        [Recompute ''j1'' 0 body_d1, Cancel ''j1'' 1, Timeout 0 5000 (1 / 2)] ''j1'') =
     Some (Some 5000) \<and>
   map_option cancelledAt
     (job_after init_state
        [Recompute ''j1'' 0 body_d1, Cancel ''j1'' 1, Timeout 0 5000 (1 / 2)] ''j1'') =
     Some (Some 1) \<and>
   map_option cancelledAt
     (job_after init_state [Recompute ''j1'' 0 body_d1, Cancel ''j1'' 1] ''j1'') =
     Some (Some 1) \<and>
   map_option cancelledAt
     (job_after init_state [Recompute ''j1'' 0 body_d1, Cancel ''j1'' 1, Cancel ''j1'' 2] ''j1'') =
     Some (Some 2)"
  by (simp add: job_after_def demo_defs)

text \<open>
  Claim C3, as amended. In every reachable state, a computation whose status is terminal
  stays in the map with a terminal status under every further request and callback (it may
  change between \<open>cancelled\<close> and \<open>completed\<close>); its \<open>completedAt\<close>, once set, is never written
  again; its \<open>cancelledAt\<close>, once set, stays set (a further cancellation overwrites it). Both
  timestamps may be set on the same computation.
\<close>

theorem terminal_stays_terminal:
  assumes "run init_state es0 = Some s" and "run s es = Some s'"
      and "map_get (computations s) k = Some c" and "terminal (status c)"
  shows "\<exists>c'. map_get (computations s') k = Some c' \<and> terminal (status c') \<and>
              (completedAt c \<noteq> None \<longrightarrow> completedAt c' = completedAt c) \<and>
              (cancelledAt c \<noteq> None \<longrightarrow> cancelledAt c' \<noteq> None)"
  using run_terminal_kept [OF assms(2) reachable_store_inv [OF assms(1)] assms(3) assms(4)]
  by (simp add: terminal_kept_def)

theorem terminal_stays_terminal_witness:
  "run init_state es_mixed = Some s_mixed \<and>
   run s_mixed [Cancel ''j2'' 6000, Timeout 0 6001 (1 / 4)] \<noteq> None \<and>
   map_option status (map_get (computations s_mixed) ''j2'') = Some ''completed'' \<and>
   map_option completedAt (map_get (computations s_mixed) ''j2'') = Some (Some 5001) \<and>
   map_option status (map_get (computations s_mixed) ''j1'') = Some ''cancelled'' \<and>
   map_option cancelledAt (map_get (computations s_mixed) ''j1'') = Some (Some 10) \<and>
   terminal ''completed'' \<and> terminal ''cancelled'' \<and>
   map_option status (job_after s_mixed [Cancel ''j2'' 6000, Timeout 0 6001 (1 / 4)] ''j2'') =
     Some ''cancelled'' \<and>
   map_option completedAt (job_after s_mixed [Cancel ''j2'' 6000, Timeout 0 6001 (1 / 4)] ''j2'') =
     Some (Some 5001) \<and>
   map_option status (job_after s_mixed [Cancel ''j2'' 6000, Timeout 0 6001 (1 / 4)] ''j1'') =
     Some ''completed'' \<and>
   map_option cancelledAt (job_after s_mixed [Cancel ''j2'' 6000, Timeout 0 6001 (1 / 4)] ''j1'') \<noteq>
     Some None"
proof -
  let ?c2 = "(job_running ''j2'' 1)\<lparr>status := ''completed'', progress := 100,
             completedAt := Some 5001,
             results := Some \<lparr>accuracy = 9 / 10, iterations = 100, convergence = True\<rparr>\<rparr>"
  let ?c1 = "(job_running ''j1'' 0)\<lparr>status := ''cancelled'', cancelledAt := Some 10\<rparr>"
  have h1: "run init_state es_mixed = Some s_mixed" by (rule run_es_mixed)
  obtain s' where h2: "run s_mixed [Cancel ''j2'' 6000, Timeout 0 6001 (1 / 4)] = Some s'"
    by (simp add: demo_defs)
  have g2: "map_get (computations s_mixed) ''j2'' = Some ?c2"
    by (simp add: s_mixed_def map_get_def)
  have t2: "terminal (status ?c2)" by (simp add: terminal_def)
  have g1: "map_get (computations s_mixed) ''j1'' = Some ?c1"
    by (simp add: s_mixed_def map_get_def)
  have t1: "terminal (status ?c1)" by (simp add: terminal_def)
  from terminal_stays_terminal [OF h1 h2 g2 t2]
  obtain c2' where c2': "map_get (computations s') ''j2'' = Some c2'" "terminal (status c2')"
    "completedAt c2' = Some 5001" by auto
  from terminal_stays_terminal [OF h1 h2 g1 t1]
  obtain c1' where c1': "map_get (computations s') ''j1'' = Some c1'" "terminal (status c1')"
    "cancelledAt c1' \<noteq> None" by auto
  have e2: "job_after s_mixed [Cancel ''j2'' 6000, Timeout 0 6001 (1 / 4)] ''j2'' = Some c2'"
    using h2 c2'(1) by (simp add: job_after_def)
  have e1: "job_after s_mixed [Cancel ''j2'' 6000, Timeout 0 6001 (1 / 4)] ''j1'' = Some c1'"
    using h2 c1'(1) by (simp add: job_after_def)
  have st: "map_option status (job_after s_mixed [Cancel ''j2'' 6000, Timeout 0 6001 (1 / 4)] ''j2'') =
     Some ''cancelled''"
    "map_option status (job_after s_mixed [Cancel ''j2'' 6000, Timeout 0 6001 (1 / 4)] ''j1'') =
     Some ''completed''"
    by (simp_all add: job_after_def demo_defs)
  show ?thesis using h1 h2 g1 g2 c1' c2' e1 e2 st by (simp add: terminal_def job_running_def)
qed

subsection \<open>The history\<close>

text \<open>
  Claim C8. For every state and every status value given as filter (a non-empty string;
  the handler takes an empty one as no filter), the history lists only computations with
  exactly that status, as a prefix of the matching ones in insertion order, and
  \<open>pagination.total\<close> is the number of all matching ones, whatever the limit.
\<close>

theorem history_status_filter:
  assumes "q_status q = Some v" and "v \<noteq> []"
  shows "\<exists>js pg. getComputationHistory s q = HistoryOk js pg \<and>
           (\<forall>c\<in>set js. status c = v) \<and>
           prefix js (filter (\<lambda>c. status c = v) (map_values (computations s))) \<and>
           total pg = length (filter (\<lambda>c. status c = v) (map_values (computations s)))"
proof -
  let ?f = "filter (\<lambda>c. status c = v) (map_values (computations s))"
  let ?l = "case q_limit q of None \<Rightarrow> Num 20 | Some l \<Rightarrow> l"
  have f: "history_filtered s (q_status q) = ?f"
    using assms by (simp add: history_filtered_def)
  have "set (slice ?f (Num 0) ?l) \<subseteq> set ?f"
    unfolding slice_from_zero by (rule set_take_subset)
  then have a: "\<forall>c\<in>set (slice ?f (Num 0) ?l). status c = v" by auto
  have b: "prefix (slice ?f (Num 0) ?l) ?f"
    unfolding slice_from_zero by (rule take_is_prefix)
  let ?pg = "\<lparr>page = (case q_page q of None \<Rightarrow> Num 1 | Some p \<Rightarrow> p), limit = ?l,
              total = length ?f\<rparr>"
  have c: "getComputationHistory s q = HistoryOk (slice ?f (Num 0) ?l) ?pg"
    unfolding getComputationHistory_def Let_def f ..
  have d: "total ?pg = length ?f" by simp
  from a b c d show ?thesis by blast
qed

theorem history_status_filter_witness:
  "q_status \<lparr>q_page = None, q_limit = Some (Num 1), q_status = Some ''running''\<rparr> =
     Some ''running'' \<and> ''running'' \<noteq> [] \<and>
   getComputationHistory s_two \<lparr>q_page = None, q_limit = Some (Num 1), q_status = Some ''running''\<rparr> =
     HistoryOk [job_running ''j1'' 0] \<lparr>page = Num 1, limit = Num 1, total = 2\<rparr> \<and>
   getComputationHistory s_mixed \<lparr>q_page = None, q_limit = None, q_status = Some ''completed''\<rparr> =
     HistoryOk [(job_running ''j2'' 1)\<lparr>status := ''completed'', progress := 100,
                   completedAt := Some 5001,
                   results := Some \<lparr>accuracy = 9 / 10, iterations = 100,
                                    convergence = True\<rparr>\<rparr>]
       \<lparr>page = Num 1, limit = Num 20, total = 1\<rparr>"
proof -
  let ?q = "\<lparr>q_page = None, q_limit = Some (Num 1), q_status = Some ''running''\<rparr>"
  have h1: "q_status ?q = Some ''running''" by simp
  have h2: "''running'' \<noteq> []" by simp
  from history_status_filter [OF h1 h2, of s_two]
  obtain js pg where
    r: "getComputationHistory s_two ?q = HistoryOk js pg"
    and t: "total pg = length (filter (\<lambda>c. status c = ''running'') (map_values (computations s_two)))"
    by blast
  have e1: "getComputationHistory s_two ?q =
     HistoryOk [job_running ''j1'' 0] \<lparr>page = Num 1, limit = Num 1, total = 2\<rparr>"
    by (simp add: getComputationHistory_def history_filtered_def s_two_def map_values_def
        job_running_def slice_def rel_index_def to_integer_def)
  have e2: "getComputationHistory s_mixed \<lparr>q_page = None, q_limit = None, q_status = Some ''completed''\<rparr> =
     HistoryOk [(job_running ''j2'' 1)\<lparr>status := ''completed'', progress := 100,
                   completedAt := Some 5001,
                   results := Some \<lparr>accuracy = 9 / 10, iterations = 100,
                                    convergence = True\<rparr>\<rparr>]
       \<lparr>page = Num 1, limit = Num 20, total = 1\<rparr>"
    by (simp add: getComputationHistory_def history_filtered_def s_mixed_def map_values_def
        job_running_def slice_def rel_index_def to_integer_def)
  show ?thesis using h1 h2 r t e1 e2 by simp
qed

text \<open>
  Claim C9 says that page \<open>p\<close> of the history is the \<open>p\<close>-th slice of the filtered
  computations. The handler calls \<open>slice(0, Number(limit))\<close> and only repeats \<open>page\<close> in the
  answer: with two running computations, page 2 of limit 1 lists the first one, not the
  second.
\<close>

theorem history_page_two_counterexample:
  "run init_state es_two = Some s_two \<and>
   getComputationHistory s_two
     \<lparr>q_page = Some (Num 2), q_limit = Some (Num 1), q_status = Some ''running''\<rparr> =
     HistoryOk [job_running ''j1'' 0] \<lparr>page = Num 2, limit = Num 1, total = 2\<rparr> \<and>
   page_of_spec (history_filtered s_two (Some ''running'')) 2 1 = [job_running ''j2'' 1] \<and>
   job_running ''j1'' 0 \<noteq> job_running ''j2'' 1"
  using run_es_two
  by (simp add: getComputationHistory_def history_filtered_def s_two_def map_values_def
      job_running_def slice_def rel_index_def to_integer_def page_of_spec_def)

text \<open>
  Claim C9, as amended. For every state, every page number \<open>p\<close> and every limit \<open>l \<ge> 0\<close>, the
  history lists the first \<open>l\<close> of the status-filtered computations in insertion order (the
  first page of the specification) whatever \<open>p\<close> is, and repeats \<open>p\<close> and \<open>l\<close> in
  \<open>pagination\<close> together with the number of all filtered computations. So the listing is the
  \<open>p\<close>-th page only for \<open>p = 1\<close>.
\<close>

theorem history_ignores_page:
  assumes "q_page q = Some (Num p)" and "q_limit q = Some (Num l)" and "0 \<le> l"
  shows "getComputationHistory s q =
           HistoryOk (page_of_spec (history_filtered s (q_status q)) 1 (nat l))
             \<lparr>page = Num p, limit = Num l,
              total = length (history_filtered s (q_status q))\<rparr>"
  using assms
  by (simp add: getComputationHistory_def Let_def slice_from_zero_nonneg page_of_spec_def)

theorem history_ignores_page_witness:
  "q_page \<lparr>q_page = Some (Num 2), q_limit = Some (Num 1), q_status = Some ''running''\<rparr> =
     Some (Num 2) \<and>
   q_limit \<lparr>q_page = Some (Num 2), q_limit = Some (Num 1), q_status = Some ''running''\<rparr> =
     Some (Num 1) \<and> (0::int) \<le> 1 \<and>
   getComputationHistory s_two
     \<lparr>q_page = Some (Num 2), q_limit = Some (Num 1), q_status = Some ''running''\<rparr> =
     HistoryOk [job_running ''j1'' 0] \<lparr>page = Num 2, limit = Num 1, total = 2\<rparr>"
proof -
  let ?q = "\<lparr>q_page = Some (Num 2), q_limit = Some (Num 1), q_status = Some ''running''\<rparr>"
  have h1: "q_page ?q = Some (Num 2)" by simp
  have h2: "q_limit ?q = Some (Num 1)" by simp
  have h3: "(0::int) \<le> 1" by simp
  have f: "history_filtered s_two (Some ''running'') = [job_running ''j1'' 0, job_running ''j2'' 1]"
    by (simp add: history_filtered_def s_two_def map_values_def job_running_def)
  show ?thesis
    using h1 h2 h3 history_ignores_page [OF h1 h2 h3, of s_two] f
    by (simp add: page_of_spec_def)
qed

subsection \<open>Completion\<close>

text \<open>
  Claim C7. Take a computation submitted in a reachable state with \<open>datasetId\<close> \<open>d1\<close> and
  without \<open>parameters.iterations\<close>. If, after any further requests and callbacks, it is
  still \<open>running\<close> when its callback runs (after its delay, with a draw of \<open>Math.random()\<close>
  in \<open>[0, 1)\<close>), then it becomes \<open>completed\<close> with progress 100 and \<open>completedAt\<close> the time of
  the run, and \<open>getComputationResults\<close> then answers with convergence true, 100 iterations,
  an accuracy between 0 and 1, and the metadata with the identifier, \<open>d1\<close> and \<open>completedAt\<close>.
\<close>

theorem running_job_completes:
  assumes reach: "run init_state es0 = Some s0"
      and submit: "step s0 (Recompute k t0 b) = Some s1"
      and d1: "body_datasetId b = ''d1''"
      and noit: "no_iterations (body_parameters b)"
      and later: "run s1 es = Some s"
      and running: "map_option status (map_get (computations s) k) = Some ''running''"
      and i: "i < length (timers s)"
      and tid: "timer_id (timers s ! i) = k"
      and due: "timer_due (timers s ! i) \<le> now"
      and r: "0 \<le> r" "r < 1"
  shows "\<exists>s' c' a. step s (Timeout i now r) = Some s' \<and>
           map_get (computations s') k = Some c' \<and>
           status c' = ''completed'' \<and> progress c' = 100 \<and> completedAt c' = Some now \<and>
           getComputationResults s' k =
             ResultsOk (Some \<lparr>accuracy = a, iterations = 100, convergence = True\<rparr>)
               \<lparr>md_computationId = k, md_datasetId = ''d1'', md_completedAt = Some now\<rparr> \<and>
           0 \<le> a \<and> a \<le> 1"
proof -
  from submit have s1: "s1 = fst (triggerRecomputation s0 k t0 b)"
    by (simp split: if_splits)
  have "\<exists>c1. map_get (computations s1) k = Some c1 \<and> datasetId c1 = body_datasetId b \<and>
          parameters c1 = body_parameters b"
    unfolding s1 by (simp add: trigger_get)
  then obtain c1 where c1: "map_get (computations s1) k = Some c1"
    and f1: "datasetId c1 = body_datasetId b" "parameters c1 = body_parameters b" by blast
  from run_fields_kept [OF later c1]
  obtain c where c: "map_get (computations s) k = Some c"
    and f: "datasetId c = datasetId c1" "parameters c = parameters c1" by blast
  have g1: "run init_state (es0 @ Recompute k t0 b # es) = Some s"
    using reach submit later by (simp add: run_append)
  have g2: "datasetId c = ''d1''" using f f1 d1 by simp
  have g3: "no_iterations (parameters c)" using f f1 noit by simp
  have g4: "status c = ''running''" using running c by simp
  from callback_on_running_job [OF g1 c g2 g3 g4 i tid due r] show ?thesis .
qed

theorem running_job_completes_witness:
  "run init_state [] = Some init_state \<and>
   step init_state (Recompute ''j1'' 0 body_d1) = Some s_one \<and>
   body_datasetId body_d1 = ''d1'' \<and> no_iterations (body_parameters body_d1) \<and>
   run s_one [Recompute ''j2'' 1 body_d1] = Some s_two \<and>
   map_option status (map_get (computations s_two) ''j1'') = Some ''running'' \<and>
   (0::nat) < length (timers s_two) \<and> timer_id (timers s_two ! 0) = ''j1'' \<and>
   timer_due (timers s_two ! 0) \<le> 5000 \<and> (0::real) \<le> 1 / 2 \<and> (1 / 2 :: real) < 1 \<and>
   map_option (\<lambda>s'. getComputationResults s' ''j1'') (step s_two (Timeout 0 5000 (1 / 2))) =
     Some (ResultsOk (Some \<lparr>accuracy = 9 / 10, iterations = 100, convergence = True\<rparr>)
             \<lparr>md_computationId = ''j1'', md_datasetId = ''d1'', md_completedAt = Some 5000\<rparr>)"
proof -
  have h1: "run init_state [] = Some init_state" by simp
  have h2: "step init_state (Recompute ''j1'' 0 body_d1) = Some s_one"
    by (simp add: s_one_def demo_defs)
  have h3: "body_datasetId body_d1 = ''d1''" by (simp add: body_d1_def)
  have h4: "no_iterations (body_parameters body_d1)"
    by (simp add: body_d1_def no_iterations_def)
  have h5: "run s_one [Recompute ''j2'' 1 body_d1] = Some s_two"
    by (simp add: s_one_def s_two_def demo_defs)
  have h6: "map_option status (map_get (computations s_two) ''j1'') = Some ''running''"
    by (simp add: s_two_def map_get_def job_running_def)
  have h7: "(0::nat) < length (timers s_two)" by (simp add: s_two_def)
  have h8: "timer_id (timers s_two ! 0) = ''j1''" by (simp add: s_two_def)
  have h9: "timer_due (timers s_two ! 0) \<le> 5000" by (simp add: s_two_def)
  have h10: "(0::real) \<le> 1 / 2" by simp
  have h11: "(1 / 2 :: real) < 1" by simp
  from running_job_completes [OF h1 h2 h3 h4 h5 h6 h7 h8 h9 h10 h11]
  obtain s' a where
    st: "step s_two (Timeout 0 5000 (1 / 2)) = Some s'"
    and res: "getComputationResults s' ''j1'' =
      ResultsOk (Some \<lparr>accuracy = a, iterations = 100, convergence = True\<rparr>)
        \<lparr>md_computationId = ''j1'', md_datasetId = ''d1'', md_completedAt = Some 5000\<rparr>"
    by blast
  have ev: "map_option (\<lambda>s'. getComputationResults s' ''j1'') (step s_two (Timeout 0 5000 (1 / 2))) =
     Some (ResultsOk (Some \<lparr>accuracy = 9 / 10, iterations = 100, convergence = True\<rparr>)
             \<lparr>md_computationId = ''j1'', md_datasetId = ''d1'', md_completedAt = Some 5000\<rparr>)"
    by (simp add: s_two_def job_running_def getComputationResults_def demo_defs)
  show ?thesis using h1 h2 h3 h4 h5 h6 h7 h8 h9 h10 h11 st res ev by simp
qed

end
